theory Spec2Isabelle
  imports Main "HOL-Library.Word"
begin

section \<open>The sink pipeline of kiwi (sink.go)\<close>

subsection \<open>Data model\<close>

text \<open>
  Go's \<open>float64\<close> and \<open>time.Time\<close> are only stored inside range filters by sink.go and
  never computed with, so they stay uninterpreted. \<open>int64\<close> is a 64-bit word.
\<close>

typedecl float64
typedecl Time
type_synonym int64 = "64 word"

text \<open>
  The implementations of the \<open>Filter\<close> interface that sink.go instantiates. A custom filter
  (any user type with a \<open>Check\<close> method) is represented by its predicate. The \<open>Check\<close>
  methods themselves are declared outside sink.go; every function that calls
  \<open>filter.Check(key, value)\<close> takes them as the parameter \<open>chk\<close>, a pure function.
  A nil \<open>Filter\<close> or a nil \<open>Formatter\<close> handed to the library is not represented.
\<close>

datatype Filter =
    keyFilter
  | valsFilter "string list"
  | int64RangeFilter int64 int64
  | float64RangeFilter float64 float64
  | timeRangeFilter Time Time
  | userFilter "string \<Rightarrow> string \<Rightarrow> bool"

type_synonym check = "Filter \<Rightarrow> string \<Rightarrow> string \<Rightarrow> bool"

text \<open>A pair as sink.go reads it: \<open>pair.Key\<close>, \<open>pair.Val.Strv\<close>, \<open>pair.Val.Quoted\<close>.\<close>

record pair =
  Key :: string
  Strv :: string
  Quoted :: bool

text \<open>
  The \<open>Formatter\<close> interface (\<open>Begin()\<close>, \<open>Pair(key, val, quoted)\<close>, \<open>Finish() []byte\<close>)
  is implemented outside sink.go. A formatter object is represented by the history of the
  method calls it has received together with the function that gives the bytes \<open>Finish\<close>
  returns after a history.
\<close>

datatype fcall = fBegin | fPair string string bool | fFinish

record Formatter =
  calls :: "fcall list"
  render :: "fcall list \<Rightarrow> string"

definition Begin :: "Formatter \<Rightarrow> Formatter" where
  "Begin f = f\<lparr>calls := calls f @ [fBegin]\<rparr>"

definition Pair_fmt :: "string \<Rightarrow> string \<Rightarrow> bool \<Rightarrow> Formatter \<Rightarrow> Formatter" where
  "Pair_fmt k v q f = f\<lparr>calls := calls f @ [fPair k v q]\<rparr>"

definition Finish :: "Formatter \<Rightarrow> string \<times> Formatter" where
  "Finish f = (render f (calls f @ [fFinish]), f\<lparr>calls := calls f @ [fFinish]\<rparr>)"

text \<open>
  A non-nil \<open>io.Writer\<close> interface value holds a dynamic type and a value of that type.
  sink.go compares two of them with \<open>==\<close>, and what \<open>==\<close> does depends on the dynamic
  type: for a pointer type the value is the address of the object; for any other
  comparable type the value is a copy of the object's content; a type that is not
  comparable (a struct with a slice, map or function field) makes \<open>==\<close> panic. For the two
  value kinds the second field tells which object of the program the value was copied
  from; it is not part of the interface value and \<open>==\<close> cannot see it. \<open>None\<close> is the nil
  interface. A \<open>*sync.WaitGroup\<close> is the address of a counter, \<open>None\<close> the nil pointer.
\<close>

datatype Writer =
    PtrWriter string nat
  | ValWriter string nat string
  | RawWriter string nat string

type_synonym WaitGroup = nat

record box =
  Record :: "pair list option"
  Group :: "WaitGroup option"

text \<open>
  The buffered channel \<open>In\<close> (\<open>make(chan *box, 16)\<close>): its buffer, oldest entry first.
  The \<open>uint\<close> field \<open>id\<close> only ever holds a length of the registry and is a natural
  number here.
\<close>

record chan =
  buf :: "box list"
  chan_closed :: bool

definition chan_cap :: nat where
  "chan_cap = 16"

record Sink =
  sink_id :: nat
  In :: chan
  writer :: "Writer option"
  format :: Formatter
  closed :: bool
  paused :: bool
  positiveFilters :: "string \<rightharpoonup> Filter"
  negativeFilters :: "string \<rightharpoonup> Filter"
  hiddenKeys :: "string \<rightharpoonup> bool"

text \<open>
  The process state: the store of \<open>Sink\<close> structs (a \<open>*Sink\<close> is an address), the
  registry \<open>collector.Sinks\<close>, the wait-group counters, and what each destination has
  been sent by \<open>Write\<close>, oldest first.
\<close>

type_synonym ptr = nat

record World =
  heap :: "ptr \<Rightarrow> Sink"
  next_ptr :: ptr
  Sinks :: "ptr list"
  wgs :: "WaitGroup \<Rightarrow> nat"
  next_wg :: WaitGroup
  written :: "Writer \<Rightarrow> string list"

text \<open>
  How a call can stop before its end: the runtime panics of Go that sink.go can reach, and
  suspension at a send on a full queue.
\<close>

datatype halt =
  NilDeref | NegativeCounter | SliceBounds | SendOnClosed | Uncomparable | BlockedOnSend

subsection \<open>Filter and redaction mutators\<close>

text \<open>
  Every function of sink.go runs its body under the locks it takes and is one atomic step
  here; a statement about several steps fixes their order. Each mutator runs under the
  sink's write lock, so it is one atomic update of the sink. The Go methods return the
  receiver; the model returns the updated struct.
\<close>

definition WithKey :: "string list \<Rightarrow> Sink \<Rightarrow> Sink" where
  "WithKey keys s =
     (if \<not> closed s then
        fold (\<lambda>key s. s\<lparr>positiveFilters := (positiveFilters s)(key \<mapsto> keyFilter),
                          negativeFilters := (negativeFilters s)(key := None)\<rparr>) keys s
      else s)"

definition WithoutKey :: "string list \<Rightarrow> Sink \<Rightarrow> Sink" where
  "WithoutKey keys s =
     (if \<not> closed s then
        fold (\<lambda>key s. s\<lparr>negativeFilters := (negativeFilters s)(key \<mapsto> keyFilter),
                          positiveFilters := (positiveFilters s)(key := None)\<rparr>) keys s
      else s)"

definition WithValue :: "string \<Rightarrow> string list \<Rightarrow> Sink \<Rightarrow> Sink" where
  "WithValue key vals s =
     (if length vals = 0 then WithKey [key] s
      else if \<not> closed s then
        s\<lparr>positiveFilters := (positiveFilters s)(key \<mapsto> valsFilter vals),
          negativeFilters := (negativeFilters s)(key := None)\<rparr>
      else s)"

definition WithoutValue :: "string \<Rightarrow> string list \<Rightarrow> Sink \<Rightarrow> Sink" where
  "WithoutValue key vals s =
     (if length vals = 0 then WithoutKey [key] s
      else if \<not> closed s then
        s\<lparr>negativeFilters := (negativeFilters s)(key \<mapsto> valsFilter vals),
          positiveFilters := (positiveFilters s)(key := None)\<rparr>
      else s)"

definition WithInt64Range :: "string \<Rightarrow> int64 \<Rightarrow> int64 \<Rightarrow> Sink \<Rightarrow> Sink" where
  "WithInt64Range key from to s =
     (if \<not> closed s then
        s\<lparr>negativeFilters := (negativeFilters s)(key := None),
          positiveFilters := (positiveFilters s)(key \<mapsto> int64RangeFilter from to)\<rparr>
      else s)"

definition WithoutInt64Range :: "string \<Rightarrow> int64 \<Rightarrow> int64 \<Rightarrow> Sink \<Rightarrow> Sink" where
  "WithoutInt64Range key from to s =
     (if \<not> closed s then
        s\<lparr>positiveFilters := (positiveFilters s)(key := None),
          negativeFilters := (negativeFilters s)(key \<mapsto> int64RangeFilter from to)\<rparr>
      else s)"

definition WithFloat64Range :: "string \<Rightarrow> float64 \<Rightarrow> float64 \<Rightarrow> Sink \<Rightarrow> Sink" where
  "WithFloat64Range key from to s =
     (if \<not> closed s then
        s\<lparr>negativeFilters := (negativeFilters s)(key := None),
          positiveFilters := (positiveFilters s)(key \<mapsto> float64RangeFilter from to)\<rparr>
      else s)"

definition WithoutFloat64Range :: "string \<Rightarrow> float64 \<Rightarrow> float64 \<Rightarrow> Sink \<Rightarrow> Sink" where
  "WithoutFloat64Range key from to s =
     (if \<not> closed s then
        s\<lparr>positiveFilters := (positiveFilters s)(key := None),
          negativeFilters := (negativeFilters s)(key \<mapsto> float64RangeFilter from to)\<rparr>
      else s)"

definition WithTimeRange :: "string \<Rightarrow> Time \<Rightarrow> Time \<Rightarrow> Sink \<Rightarrow> Sink" where
  "WithTimeRange key from to s =
     (if \<not> closed s then
        s\<lparr>negativeFilters := (negativeFilters s)(key := None),
          positiveFilters := (positiveFilters s)(key \<mapsto> timeRangeFilter from to)\<rparr>
      else s)"

definition WithoutTimeRange :: "string \<Rightarrow> Time \<Rightarrow> Time \<Rightarrow> Sink \<Rightarrow> Sink" where
  "WithoutTimeRange key from to s =
     (if \<not> closed s then
        s\<lparr>positiveFilters := (positiveFilters s)(key := None),
          negativeFilters := (negativeFilters s)(key \<mapsto> timeRangeFilter from to)\<rparr>
      else s)"

definition WithFilter :: "string \<Rightarrow> Filter \<Rightarrow> Sink \<Rightarrow> Sink" where
  "WithFilter key customFilter s =
     (if \<not> closed s then
        s\<lparr>positiveFilters := (positiveFilters s)(key \<mapsto> customFilter)\<rparr>
      else s)"

definition Reset :: "string list \<Rightarrow> Sink \<Rightarrow> Sink" where
  "Reset keys s =
     (if \<not> closed s then
        fold (\<lambda>key s. s\<lparr>positiveFilters := (positiveFilters s)(key := None),
                          negativeFilters := (negativeFilters s)(key := None)\<rparr>) keys s
      else s)"

definition Hide :: "string list \<Rightarrow> Sink \<Rightarrow> Sink" where
  "Hide keys s =
     (if \<not> closed s then
        fold (\<lambda>key s. s\<lparr>hiddenKeys := (hiddenKeys s)(key \<mapsto> True)\<rparr>) keys s
      else s)"

definition Unhide :: "string list \<Rightarrow> Sink \<Rightarrow> Sink" where
  "Unhide keys s =
     (if \<not> closed s then
        fold (\<lambda>key s. s\<lparr>hiddenKeys := (hiddenKeys s)(key := None)\<rparr>) keys s
      else s)"

definition Stop :: "Sink \<Rightarrow> Sink" where
  "Stop s = s\<lparr>paused := True\<rparr>"

definition Start :: "Sink \<Rightarrow> Sink" where
  "Start s = s\<lparr>paused := False\<rparr>"

text \<open>A method call through a \<open>*Sink\<close>: the struct at the address is updated in the store.\<close>

definition on_sink :: "ptr \<Rightarrow> (Sink \<Rightarrow> Sink) \<Rightarrow> World \<Rightarrow> World" where
  "on_sink a m w = w\<lparr>heap := (heap w)(a := m (heap w a))\<rparr>"

subsection \<open>Registry: SinkTo and Close\<close>

text \<open>
  \<open>SinkTo\<close> yields the handle and the new state. Its \<open>go processOutput(sink)\<close> starts the
  sink's task, which is the function \<open>processOutput\<close> below.
\<close>

text \<open>
  \<open>sink.writer == w\<close> on interface values: both nil; or the same dynamic type and equal
  values, with a run-time panic when that type is not comparable. Values of different
  dynamic types are unequal.
\<close>

fun writer_eq :: "Writer option \<Rightarrow> Writer option \<Rightarrow> halt + bool" where
  "writer_eq None None = Inr True"
| "writer_eq (Some (PtrWriter t p)) (Some (PtrWriter t' p')) = Inr (t = t' \<and> p = p')"
| "writer_eq (Some (ValWriter t i v)) (Some (ValWriter t' i' v')) = Inr (t = t' \<and> v = v')"
| "writer_eq (Some (RawWriter t i v)) (Some (RawWriter t' i' v')) =
     (if t = t' then Inl Uncomparable else Inr False)"
| "writer_eq _ _ = Inr False"

text \<open>The loop of \<open>SinkTo\<close> over the registry: the first sink whose writer equals \<open>w\<close>.\<close>

fun findSink :: "(ptr \<Rightarrow> Sink) \<Rightarrow> Writer option \<Rightarrow> ptr list \<Rightarrow> halt + ptr option" where
  "findSink h w [] = Inr None"
| "findSink h w (a # as) =
     (case writer_eq (writer (h a)) w of
        Inl e \<Rightarrow> Inl e
      | Inr eq \<Rightarrow> if eq then Inr (Some a) else findSink h w as)"

definition SinkTo :: "Writer option \<Rightarrow> Formatter \<Rightarrow> World \<Rightarrow> halt + ptr \<times> World" where
  "SinkTo w fn wd =
     (case findSink (heap wd) w (Sinks wd) of
        Inl e \<Rightarrow> Inl e
      | Inr (Some a) \<Rightarrow> Inr (a, wd\<lparr>heap := (heap wd)(a := (heap wd a)\<lparr>format := fn\<rparr>)\<rparr>)
      | Inr None \<Rightarrow>
          (let a = next_ptr wd;
               sink = \<lparr>sink_id = length (Sinks wd),
                       In = \<lparr>buf = [], chan_closed = False\<rparr>,
                       writer = w,
                       format = fn,
                       closed = False,
                       paused = True,
                       positiveFilters = Map.empty,
                       negativeFilters = Map.empty,
                       hiddenKeys = Map.empty\<rparr>
           in Inr (a, wd\<lparr>heap := (heap wd)(a := sink), next_ptr := Suc a,
                          Sinks := Sinks wd @ [a]\<rparr>)))"

text \<open>
  \<open>append(collector.Sinks[0:s.id], collector.Sinks[s.id+1:]...)\<close>: the slice expression
  \<open>collector.Sinks[s.id+1:]\<close> panics when \<open>s.id+1\<close> exceeds the length.
\<close>

definition Close :: "ptr \<Rightarrow> World \<Rightarrow> halt + World" where
  "Close a wd =
     (let s = heap wd a in
      if \<not> closed s then
        (let wd1 = wd\<lparr>heap := (heap wd)(a := s\<lparr>closed := True, writer := None\<rparr>)\<rparr> in
         if sink_id s + 1 > length (Sinks wd1) then Inl SliceBounds
         else Inr (wd1\<lparr>Sinks := take (sink_id s) (Sinks wd1) @ drop (sink_id s + 1) (Sinks wd1)\<rparr>))
      else Inr wd)"

subsection \<open>Wait groups and the input queue\<close>

definition wg_Add :: "WaitGroup \<Rightarrow> World \<Rightarrow> World" where
  "wg_Add g wd = wd\<lparr>wgs := (wgs wd)(g := wgs wd g + 1)\<rparr>"

text \<open>\<open>Done\<close> on a counter that is already zero panics (negative WaitGroup counter).\<close>

definition wg_Done :: "WaitGroup \<Rightarrow> World \<Rightarrow> halt + World" where
  "wg_Done g wd =
     (if wgs wd g = 0 then Inl NegativeCounter
      else Inr (wd\<lparr>wgs := (wgs wd)(g := wgs wd g - 1)\<rparr>))"

text \<open>\<open>wg.Wait()\<close> lets its caller go on exactly when the counter is zero.\<close>

definition wg_Wait_returns :: "WaitGroup \<Rightarrow> World \<Rightarrow> bool" where
  "wg_Wait_returns g wd = (wgs wd g = 0)"

text \<open>\<open>s.In <- b\<close>: panics on a closed channel, suspends the sender while the buffer is full.\<close>

definition send :: "ptr \<Rightarrow> box \<Rightarrow> World \<Rightarrow> halt + World" where
  "send a b wd =
     (let s = heap wd a in
      if chan_closed (In s) then Inl SendOnClosed
      else if length (buf (In s)) < chan_cap then
        Inr (wd\<lparr>heap := (heap wd)(a := s\<lparr>In := (In s)\<lparr>buf := buf (In s) @ [b]\<rparr>\<rparr>)\<rparr>)
      else Inl BlockedOnSend)"

subsection \<open>The processing task\<close>

text \<open>
  \<open>ok := s.hiddenKeys[pair.Key]\<close> reads the stored boolean; a missing key reads as false.
\<close>

definition hidden :: "Sink \<Rightarrow> string \<Rightarrow> bool" where
  "hidden s k = (case hiddenKeys s k of Some ok \<Rightarrow> ok | None \<Rightarrow> False)"

fun formatPairs :: "Sink \<Rightarrow> pair list \<Rightarrow> Formatter \<Rightarrow> Formatter" where
  "formatPairs s [] f = f"
| "formatPairs s (p # ps) f =
     (if hidden s (Key p) then formatPairs s ps f
      else formatPairs s ps (Pair_fmt (Key p) (Strv p) (Quoted p) f))"

definition filterRecord :: "ptr \<Rightarrow> pair list \<Rightarrow> World \<Rightarrow> World" where
  "filterRecord a rec wd =
     (let s = heap wd a;
          f1 = formatPairs s rec (Begin (format s))
      in case writer s of
           None \<Rightarrow> wd\<lparr>heap := (heap wd)(a := s\<lparr>format := f1\<rparr>)\<rparr>
         | Some wr \<Rightarrow>
             (let (bytes, f2) = Finish f1
              in wd\<lparr>heap := (heap wd)(a := s\<lparr>format := f2\<rparr>),
                    written := (written wd)(wr := written wd wr @ [bytes])\<rparr>))"

text \<open>
  The filter loop of \<open>processOutput\<close>: \<open>False\<close> is the jump to \<open>skipRecord\<close>, \<open>True\<close> is
  falling out of the loop into \<open>filterRecord\<close>.
\<close>

fun filterLoop :: "check \<Rightarrow> Sink \<Rightarrow> pair list \<Rightarrow> bool" where
  "filterLoop chk s [] = True"
| "filterLoop chk s (p # ps) =
     (if (case negativeFilters s (Key p) of
            Some flt \<Rightarrow> chk flt (Key p) (Strv p) | None \<Rightarrow> False) then False
      else if (case positiveFilters s (Key p) of
            Some flt \<Rightarrow> \<not> chk flt (Key p) (Strv p) | None \<Rightarrow> False) then False
      else filterLoop chk s ps)"

text \<open>
  One iteration of the loop of \<open>processOutput\<close> on a dequeued entry, under the sink's read
  lock. The boolean tells whether the loop goes on (\<open>continue\<close>) or the task returns.
\<close>

definition processBox :: "check \<Rightarrow> ptr \<Rightarrow> box \<Rightarrow> World \<Rightarrow> halt + (World \<times> bool)" where
  "processBox chk a b wd =
     (let s = heap wd a in
      if closed s then
        (case Group b of
           Some g \<Rightarrow> (case wg_Done g wd of Inl e \<Rightarrow> Inl e | Inr wd1 \<Rightarrow> Inr (wd1, False))
         | None \<Rightarrow> Inr (wd, False))
      else if Record b = None \<and> Group b \<noteq> None then
        (case wg_Done (the (Group b)) wd of Inl e \<Rightarrow> Inl e | Inr wd1 \<Rightarrow> Inr (wd1, True))
      else if paused s then
        (case Group b of
           Some g \<Rightarrow> (case wg_Done g wd of Inl e \<Rightarrow> Inl e | Inr wd1 \<Rightarrow> Inr (wd1, True))
         | None \<Rightarrow> Inr (wd, True))
      else
        (case Record b of
           None \<Rightarrow> Inl NilDeref
         | Some rec \<Rightarrow>
             (let wd1 = (if filterLoop chk s rec then filterRecord a rec wd else wd) in
              case Group b of
                None \<Rightarrow> Inl NilDeref
              | Some g \<Rightarrow>
                  (case wg_Done g wd1 of Inl e \<Rightarrow> Inl e | Inr wd2 \<Rightarrow> Inr (wd2, True)))))"

text \<open>How a run of the task ends: suspended at the receive on an empty queue, or returned.\<close>

datatype task = Waiting | Returned

definition dequeue :: "ptr \<Rightarrow> World \<Rightarrow> World" where
  "dequeue a wd =
     wd\<lparr>heap := (heap wd)(a := (heap wd a)\<lparr>In := (In (heap wd a))\<lparr>buf := tl (buf (In (heap wd a)))\<rparr>\<rparr>)\<rparr>"

definition release :: "ptr \<Rightarrow> World \<Rightarrow> World" where
  "release a wd =
     wd\<lparr>heap := (heap wd)(a := (heap wd a)\<lparr>closed := True,
                                              positiveFilters := Map.empty,
                                              negativeFilters := Map.empty,
                                              hiddenKeys := Map.empty\<rparr>)\<rparr>"

text \<open>
  \<open>processOutput\<close>: the task runs until it has to wait at an empty queue, returns, or
  panics. Each iteration takes one entry off the queue and nothing in an iteration adds
  one, which is the termination argument.
\<close>

function processOutput :: "check \<Rightarrow> ptr \<Rightarrow> World \<Rightarrow> halt + (task \<times> World)" where
  "processOutput chk a wd =
     (case buf (In (heap wd a)) of
        [] \<Rightarrow>
          if chan_closed (In (heap wd a)) then Inr (Returned, release a wd)
          else Inr (Waiting, wd)
      | b # bs \<Rightarrow>
          (case processBox chk a b (dequeue a wd) of
             Inl e \<Rightarrow> Inl e
           | Inr (wd1, continue) \<Rightarrow>
               if continue then processOutput chk a wd1 else Inr (Returned, wd1)))"
  by pat_completeness auto
termination
proof (relation "measure (\<lambda>(chk, a, wd). length (buf (In (heap wd a))))")
  show "wf (measure (\<lambda>(chk, a, wd). length (buf (In (heap wd a)))))"
    by simp
next
  fix chk a wd b bs x2 wd1 continue
  assume q: "buf (In (heap wd a)) = b # bs"
    and r: "processBox chk a b (dequeue a wd) = Inr x2"
    and x: "(wd1, continue) = x2"
  have done_heap: "heap v' = heap v" if "wg_Done g v = Inr v'" for g v v'
    using that by (auto simp: wg_Done_def split: if_splits)
  have fr_In: "In (heap (filterRecord a rec v) a) = In (heap v a)" for rec v
    by (simp add: filterRecord_def Let_def split: option.splits prod.splits)
  from r x have "processBox chk a b (dequeue a wd) = Inr (wd1, continue)"
    by simp
  then have "In (heap wd1 a) = In (heap (dequeue a wd) a)"
    by (auto simp: processBox_def Let_def fr_In
             split: if_splits option.splits sum.splits dest!: done_heap)
  with q show "((chk, a, wd1), (chk, a, wd))
      \<in> measure (\<lambda>(chk, a, wd). length (buf (In (heap wd a))))"
    by (simp add: dequeue_def)
qed

declare processOutput.simps [simp del]

subsection \<open>Producers: sinkRecord\<close>

text \<open>
  A call of \<open>sinkRecord\<close> is not one step: it can suspend at \<open>s.In <- ...\<close> on a full queue
  and in \<open>wg.Wait()\<close>, and goes on when a task has made room or has signaled. A call is
  therefore a small machine. It is at the head of the loop with the sinks of the registry
  still to visit (\<open>range\<close> reads the registry once, under the registry's read lock), or
  past \<open>wg.Add(1)\<close> at the send to a sink, or in \<open>wg.Wait()\<close>, or at its end. Its local
  variables are the record and the wait group; \<open>sent\<close> lists the sinks it has sent to so
  far and is there for the statements below only. The sinks' own locks are not taken (the
  source has them commented out).
\<close>

datatype pc = AtLoop "ptr list" | AtSend ptr "ptr list" | AtWait | AtEnd

record call =
  crec :: "pair list"
  cwg :: WaitGroup
  sent :: "ptr list"
  at :: pc

text \<open>\<open>var wg sync.WaitGroup\<close> and the start of the loop.\<close>

definition sinkRecord_begin :: "pair list \<Rightarrow> World \<Rightarrow> call \<times> World" where
  "sinkRecord_begin rec wd =
     (\<lparr>crec = rec, cwg = next_wg wd, sent = [], at = AtLoop (Sinks wd)\<rparr>,
      wd\<lparr>wgs := (wgs wd)(next_wg wd := 0), next_wg := Suc (next_wg wd)\<rparr>)"

text \<open>
  One step of the call. \<open>None\<close>: the call is suspended (or over) and cannot move in this
  state.
\<close>

definition sinkRecord_step :: "call \<Rightarrow> World \<Rightarrow> (halt + call \<times> World) option" where
  "sinkRecord_step c wd =
     (case at c of
        AtLoop as \<Rightarrow>
          (case as of
             [] \<Rightarrow> Some (Inr (c\<lparr>at := AtWait\<rparr>, wd))
           | a # as' \<Rightarrow>
               if \<not> paused (heap wd a) \<and> \<not> closed (heap wd a)
               then Some (Inr (c\<lparr>at := AtSend a as'\<rparr>, wg_Add (cwg c) wd))
               else Some (Inr (c\<lparr>at := AtLoop as'\<rparr>, wd)))
      | AtSend a as \<Rightarrow>
          (case send a \<lparr>Record = Some (crec c), Group = Some (cwg c)\<rparr> wd of
             Inl e \<Rightarrow> if e = BlockedOnSend then None else Some (Inl e)
           | Inr wd1 \<Rightarrow> Some (Inr (c\<lparr>sent := sent c @ [a], at := AtLoop as\<rparr>, wd1)))
      | AtWait \<Rightarrow>
          if wg_Wait_returns (cwg c) wd then Some (Inr (c\<lparr>at := AtEnd\<rparr>, wd)) else None
      | AtEnd \<Rightarrow> None)"

text \<open>
  The call run on its own for as long as it can move: it ends at \<open>AtEnd\<close> (returned), or
  suspended at a send or in \<open>wg.Wait()\<close>.
\<close>

fun pc_size :: "pc \<Rightarrow> nat" where
  "pc_size (AtLoop as) = 2 * length as + 2"
| "pc_size (AtSend a as) = 2 * length as + 3"
| "pc_size AtWait = 1"
| "pc_size AtEnd = 0"

function sinkRecord_run :: "call \<Rightarrow> World \<Rightarrow> halt + call \<times> World" where
  "sinkRecord_run c wd =
     (case sinkRecord_step c wd of
        None \<Rightarrow> Inr (c, wd)
      | Some r \<Rightarrow>
          (case r of
             Inl e \<Rightarrow> Inl e
           | Inr (c', wd') \<Rightarrow> sinkRecord_run c' wd'))"
  by pat_completeness auto
termination
proof (relation "measure (\<lambda>(c, wd). pc_size (at c))")
  show "wf (measure (\<lambda>(c, wd). pc_size (at c)))"
    by simp
next
  fix c wd r x c' wd'
  assume "sinkRecord_step c wd = Some r" and "r = Inr x" and "(c', wd') = x"
  then have "sinkRecord_step c wd = Some (Inr (c', wd'))"
    by simp
  then have "pc_size (at c') < pc_size (at c)"
    by (auto simp: sinkRecord_step_def split: pc.splits list.splits if_splits sum.splits)
  then show "((c', wd'), (c, wd)) \<in> measure (\<lambda>(c, wd). pc_size (at c))"
    by simp
qed

declare sinkRecord_run.simps [simp del]

definition sinkRecord :: "pair list \<Rightarrow> World \<Rightarrow> halt + call \<times> World" where
  "sinkRecord rec wd = (case sinkRecord_begin rec wd of (c, wd0) \<Rightarrow> sinkRecord_run c wd0)"






subsection \<open>The state at program start\<close>

text \<open>
  Go's zero value of \<open>Sink\<close> fills the store where nothing has been allocated; \<open>SinkTo\<close>
  is the only source of \<open>*Sink\<close> values, so such a cell is never reached.
\<close>

definition zeroSink :: Sink where
  "zeroSink = \<lparr>sink_id = 0, In = \<lparr>buf = [], chan_closed = False\<rparr>, writer = None,
                format = \<lparr>calls = [], render = (\<lambda>_. [])\<rparr>,
                closed = False, paused = False,
                positiveFilters = Map.empty, negativeFilters = Map.empty,
                hiddenKeys = Map.empty\<rparr>"

definition World0 :: World where
  "World0 = \<lparr>heap = (\<lambda>_. zeroSink), next_ptr = 0, Sinks = [],
             wgs = (\<lambda>_. 0), next_wg = 0, written = (\<lambda>_. [])\<rparr>"

subsection \<open>Collaborators declared outside sink.go\<close>

fun joinSp :: "string list \<Rightarrow> string" where
  "joinSp [] = []"
| "joinSp [x] = x"
| "joinSp (x # y # zs) = x @ '' '' @ joinSp (y # zs)"

text \<open>
  Modelled from the spec: the logfmt formatter (\<open>AsLogfmt\<close> in the tests) is not under
  src/. The spec has it render the pairs of the current record as \<open>key=value\<close>,
  space-separated, a quoted value between double quotes, newline-terminated per record.
\<close>

definition AsLogfmt :: Formatter where
  "AsLogfmt = \<lparr>calls = [],
     render = (\<lambda>cs. joinSp [k @ ''='' @ (if q then [CHR 0x22] @ v @ [CHR 0x22] else v).
                         fPair k v q \<leftarrow> rev (takeWhile (\<lambda>c. c \<noteq> fBegin) (rev cs))]
                  @ [CHR 0x0A])\<rparr>"

text \<open>
  Modelled from the spec: the \<open>Check\<close> methods are not under src/. The spec has a
  key-presence filter hold whenever its key occurs, a value-membership filter hold when the
  value is one of the listed ones, and a custom filter decide by its own predicate. What the
  range filters parse out of the value text is not given; they are left rejecting here and
  no statement below applies \<open>specCheck\<close> to one.
\<close>

definition specCheck :: check where
  "specCheck f k v =
     (case f of
        keyFilter \<Rightarrow> True
      | valsFilter vals \<Rightarrow> v \<in> set vals
      | userFilter p \<Rightarrow> p k v
      | _ \<Rightarrow> False)"

text \<open>
  The destinations of the tests are \<open>*bytes.Buffer\<close> values. \<open>after\<close> is the state a call
  leaves, for calls that are known to return.
\<close>

definition buffer :: "nat \<Rightarrow> Writer" where
  "buffer n = PtrWriter ''*bytes.Buffer'' n"

definition after :: "halt + ptr \<times> World \<Rightarrow> World" where
  "after r = (case r of Inl e \<Rightarrow> World0 | Inr (a, wd) \<Rightarrow> wd)"

text \<open>
  A destination whose dynamic type is a struct with a slice field, and two destination
  objects of one comparable struct type with equal content.
\<close>

definition sliceWriter :: Writer where
  "sliceWriter = RawWriter ''sliceWriter'' 0 ''log''"

definition tagWriterA :: Writer where
  "tagWriterA = ValWriter ''tagWriter'' 0 ''log''"

definition tagWriterB :: Writer where
  "tagWriterB = ValWriter ''tagWriter'' 1 ''log''"

text \<open>A registry holding one freshly created sink, at address 0, writing to buffer 0.\<close>

definition oneSink :: World where
  "oneSink = after (SinkTo (Some (buffer 0)) AsLogfmt World0)"

subsection \<open>The classification invariant\<close>

text \<open>No key carries a positive and a negative filter at once.\<close>

definition classified_once :: "Sink \<Rightarrow> bool" where
  "classified_once s = (dom (positiveFilters s) \<inter> dom (negativeFilters s) = {})"

subsection \<open>Vocabulary of the properties\<close>


definition enqueued :: "box \<Rightarrow> Sink \<Rightarrow> Sink" where
  "enqueued b s = s\<lparr>In := (In s)\<lparr>buf := buf (In s) @ [b]\<rparr>\<rparr>"





text \<open>The records of the spec's examples.\<close>

definition msgRecord :: "pair list" where
  "msgRecord = [\<lparr>Key = ''msg'', Strv = ''hi'', Quoted = False\<rparr>]"

definition debugRecord :: "pair list" where
  "debugRecord = [\<lparr>Key = ''debug'', Strv = ''x'', Quoted = False\<rparr>,
                  \<lparr>Key = ''msg'', Strv = ''hi'', Quoted = False\<rparr>]"

definition secretRecord :: "pair list" where
  "secretRecord = [\<lparr>Key = ''secret'', Strv = ''s'', Quoted = False\<rparr>,
                   \<lparr>Key = ''msg'', Strv = ''hi'', Quoted = False\<rparr>]"


text \<open>
  A state as the operations of sink.go leave it: the registry has no repeated entry and
  holds allocated addresses only, and every wait group that a queued entry carries has
  been allocated.
\<close>

definition regular :: "World \<Rightarrow> bool" where
  "regular w \<longleftrightarrow>
     distinct (Sinks w) \<and> (\<forall>a\<in>set (Sinks w). a < next_ptr w)
     \<and> (\<forall>a. \<forall>b\<in>set (buf (In (heap w a))). \<forall>g. Group b = Some g \<longrightarrow> g < next_wg w)"


section \<open>Properties\<close>

subsection \<open>Mutators\<close>

lemma fold_positive_once:
  "classified_once s \<Longrightarrow>
   classified_once (fold (\<lambda>key s. s\<lparr>positiveFilters := (positiveFilters s)(key \<mapsto> f),
                                       negativeFilters := (negativeFilters s)(key := None)\<rparr>) keys s)"
proof (induction keys arbitrary: s)
  case Nil
  then show ?case by simp
next
  case (Cons k ks)
  have "classified_once (s\<lparr>positiveFilters := (positiveFilters s)(k \<mapsto> f),
                            negativeFilters := (negativeFilters s)(k := None)\<rparr>)"
    using Cons.prems by (auto simp: classified_once_def)
  from Cons.IH [OF this] show ?case by (simp only: fold_simps)
qed

lemma fold_negative_once:
  "classified_once s \<Longrightarrow>
   classified_once (fold (\<lambda>key s. s\<lparr>negativeFilters := (negativeFilters s)(key \<mapsto> f),
                                       positiveFilters := (positiveFilters s)(key := None)\<rparr>) keys s)"
proof (induction keys arbitrary: s)
  case Nil
  then show ?case by simp
next
  case (Cons k ks)
  have "classified_once (s\<lparr>negativeFilters := (negativeFilters s)(k \<mapsto> f),
                            positiveFilters := (positiveFilters s)(k := None)\<rparr>)"
    using Cons.prems by (auto simp: classified_once_def)
  from Cons.IH [OF this] show ?case by (simp only: fold_simps)
qed

lemma fold_reset_once:
  "classified_once s \<Longrightarrow>
   classified_once (fold (\<lambda>key s. s\<lparr>positiveFilters := (positiveFilters s)(key := None),
                                       negativeFilters := (negativeFilters s)(key := None)\<rparr>) keys s)"
proof (induction keys arbitrary: s)
  case Nil
  then show ?case by simp
next
  case (Cons k ks)
  have "classified_once (s\<lparr>positiveFilters := (positiveFilters s)(k := None),
                            negativeFilters := (negativeFilters s)(k := None)\<rparr>)"
    using Cons.prems by (auto simp: classified_once_def)
  from Cons.IH [OF this] show ?case by (simp only: fold_simps)
qed

text \<open>
  Every mutator that assigns a filter for a key and deletes the key from the opposite map
  keeps the invariant, and so does \<open>Reset\<close>.
\<close>

lemma siblings_classified_once:
  assumes "classified_once s"
  shows "classified_once (WithKey keys s)" and "classified_once (WithoutKey keys s)"
    and "classified_once (WithValue key vals s)" and "classified_once (WithoutValue key vals s)"
    and "classified_once (WithInt64Range key i1 i2 s)"
    and "classified_once (WithoutInt64Range key i1 i2 s)"
    and "classified_once (WithFloat64Range key f1 f2 s)"
    and "classified_once (WithoutFloat64Range key f1 f2 s)"
    and "classified_once (WithTimeRange key t1 t2 s)"
    and "classified_once (WithoutTimeRange key t1 t2 s)"
    and "classified_once (Reset keys s)"
proof -
  show "classified_once (WithKey keys s)" for keys
    using assms by (simp add: WithKey_def fold_positive_once)
  then show "classified_once (WithValue key vals s)"
    using assms by (auto simp: WithValue_def classified_once_def)
  show "classified_once (WithoutKey keys s)" for keys
    using assms by (simp add: WithoutKey_def fold_negative_once)
  then show "classified_once (WithoutValue key vals s)"
    using assms by (auto simp: WithoutValue_def classified_once_def)
  show "classified_once (Reset keys s)"
    using assms by (simp add: Reset_def fold_reset_once)
qed (use assms in \<open>auto simp: classified_once_def WithInt64Range_def WithoutInt64Range_def
        WithFloat64Range_def WithoutFloat64Range_def WithTimeRange_def WithoutTimeRange_def\<close>)

text \<open>
  C4. The specification has every filter mutator, \<open>WithFilter\<close> among them, keep a key
  out of one of the two filter maps. \<open>WithFilter\<close> assigns the positive filter and leaves the negative
  map alone: on an open sink that rejects the key \<open>debug\<close> through \<open>WithoutKey\<close>, and so
  satisfies the invariant, \<open>WithFilter\<close> for \<open>debug\<close> leaves the key in both maps.
\<close>

theorem WithFilter_keeps_negative_filter:
  "(let s0 = heap oneSink 0;
        s1 = WithoutKey [''debug''] s0;
        s2 = WithFilter ''debug'' (userFilter (\<lambda>k v. v = ''x'')) s1
    in \<not> closed s1 \<and> classified_once s1 \<and> \<not> classified_once s2
       \<and> ''debug'' \<in> dom (positiveFilters s2) \<inter> dom (negativeFilters s2))"
  by (simp add: oneSink_def after_def SinkTo_def World0_def WithoutKey_def WithFilter_def
      classified_once_def Let_def)

text \<open>
  C8. On a closed sink each of the filter and redaction mutators returns the sink as it
  was: the positive filters, the negative filters and the hidden keys are unchanged (and
  so is every other field), and the call ends normally.
\<close>

theorem closed_sink_mutators_noop:
  assumes "closed s"
  shows "WithKey keys s = s \<and> WithoutKey keys s = s
       \<and> WithValue key vals s = s \<and> WithoutValue key vals s = s
       \<and> WithInt64Range key i1 i2 s = s \<and> WithoutInt64Range key i1 i2 s = s
       \<and> WithFloat64Range key f1 f2 s = s \<and> WithoutFloat64Range key f1 f2 s = s
       \<and> WithTimeRange key t1 t2 s = s \<and> WithoutTimeRange key t1 t2 s = s
       \<and> WithFilter key flt s = s \<and> Reset keys s = s
       \<and> Hide keys s = s \<and> Unhide keys s = s"
  using assms
  by (simp add: WithKey_def WithoutKey_def WithValue_def WithoutValue_def
      WithInt64Range_def WithoutInt64Range_def WithFloat64Range_def WithoutFloat64Range_def
      WithTimeRange_def WithoutTimeRange_def WithFilter_def Reset_def Hide_def Unhide_def)

theorem closed_sink_mutators_noop_witness:
  "(case Close 0 (on_sink 0 (Hide [''secret''] \<circ> WithoutKey [''debug'']) oneSink) of
      Inl e \<Rightarrow> False
    | Inr wd \<Rightarrow>
        closed (heap wd 0)
        \<and> negativeFilters (heap wd 0) ''debug'' = Some keyFilter
        \<and> WithKey [''debug''] (heap wd 0) = heap wd 0
        \<and> WithValue ''debug'' [''x''] (heap wd 0) = heap wd 0
        \<and> WithFilter ''debug'' keyFilter (heap wd 0) = heap wd 0
        \<and> Reset [''debug''] (heap wd 0) = heap wd 0
        \<and> Unhide [''secret''] (heap wd 0) = heap wd 0
        \<and> hiddenKeys (Unhide [''secret''] (heap wd 0)) ''secret'' = Some True)"
proof -
  define s where "s = (Hide [''secret''] (WithoutKey [''debug''] (heap oneSink 0)))
                        \<lparr>closed := True, writer := None\<rparr>"
  have c: "closed s"
    by (simp add: s_def)
  have e: "Close 0 (on_sink 0 (Hide [''secret''] \<circ> WithoutKey [''debug'']) oneSink)
           = Inr ((on_sink 0 (Hide [''secret''] \<circ> WithoutKey [''debug'']) oneSink)
                    \<lparr>heap := (heap oneSink)(0 := s), Sinks := []\<rparr>)"
    by (simp add: Close_def on_sink_def oneSink_def after_def SinkTo_def World0_def s_def
        Hide_def WithoutKey_def)
  have n: "negativeFilters s ''debug'' = Some keyFilter"
    and h: "hiddenKeys s ''secret'' = Some True"
    by (simp_all add: s_def oneSink_def after_def SinkTo_def World0_def Hide_def WithoutKey_def)
  from closed_sink_mutators_noop [OF c, of "[''debug'']" "''debug''" "[''x'']" _ _ _ _ _ _ keyFilter]
    closed_sink_mutators_noop [OF c, of "[''secret'']"] c e n h
  show ?thesis by simp
qed

text \<open>
  C10. On an open sink, \<open>WithValue\<close> with no values is \<open>WithKey\<close> of that key, which
  installs the key-presence filter as the key's positive filter and clears its negative
  one; \<open>WithoutValue\<close> with no values is \<open>WithoutKey\<close> of that key, the mirror image.
\<close>

theorem empty_values_is_key_filter:
  assumes "\<not> closed s"
  shows "WithValue key [] s = WithKey [key] s
       \<and> WithKey [key] s = s\<lparr>positiveFilters := (positiveFilters s)(key \<mapsto> keyFilter),
                              negativeFilters := (negativeFilters s)(key := None)\<rparr>
       \<and> WithoutValue key [] s = WithoutKey [key] s
       \<and> WithoutKey [key] s = s\<lparr>negativeFilters := (negativeFilters s)(key \<mapsto> keyFilter),
                                 positiveFilters := (positiveFilters s)(key := None)\<rparr>"
  using assms by (simp add: WithValue_def WithKey_def WithoutValue_def WithoutKey_def)

theorem empty_values_is_key_filter_witness:
  "\<not> closed (heap oneSink 0)
   \<and> WithValue ''level'' [] (heap oneSink 0) = WithKey [''level''] (heap oneSink 0)
   \<and> positiveFilters (WithValue ''level'' [] (heap oneSink 0)) ''level'' = Some keyFilter
   \<and> WithoutValue ''level'' [] (heap oneSink 0) = WithoutKey [''level''] (heap oneSink 0)
   \<and> negativeFilters (WithoutValue ''level'' [] (heap oneSink 0)) ''level'' = Some keyFilter"
proof -
  have o: "\<not> closed (heap oneSink 0)"
    by (simp add: oneSink_def after_def SinkTo_def World0_def)
  from empty_values_is_key_filter [OF o, of "''level''"] o show ?thesis
    by simp
qed

subsection \<open>Registry\<close>

text \<open>
  C9. The specification has the ids above a closed sink shifted down, so that each
  registered sink's id is its position. \<open>Close\<close> cuts the sink out of the registry and writes no id:
  with two sinks registered, closing the first leaves the second at position 0 with id 1,
  and closing that one then panics on the slice bound; with three, closing the first and
  then the second leaves the closed second sink registered and drops the open third.
\<close>

theorem Close_leaves_ids_stale:
  "(let w1 = after (SinkTo (Some (buffer 0)) AsLogfmt World0);
        w2 = after (SinkTo (Some (buffer 1)) AsLogfmt w1);
        w3 = after (SinkTo (Some (buffer 2)) AsLogfmt w2)
    in SinkTo (Some (buffer 0)) AsLogfmt World0 = Inr (0, w1)
     \<and> SinkTo (Some (buffer 1)) AsLogfmt w1 = Inr (1, w2)
     \<and> SinkTo (Some (buffer 2)) AsLogfmt w2 = Inr (2, w3)
     \<and> (case Close 0 w2 of
          Inl e \<Rightarrow> False
        | Inr w \<Rightarrow> Sinks w = [1] \<and> sink_id (heap w 1) = 1
                     \<and> Close 1 w = Inl SliceBounds)
     \<and> (case Close 0 w3 of
          Inl e \<Rightarrow> False
        | Inr w \<Rightarrow> Sinks w = [1, 2] \<and> map (\<lambda>a. sink_id (heap w a)) (Sinks w) = [1, 2]
             \<and> (case Close 1 w of
                  Inl e \<Rightarrow> False
                | Inr w' \<Rightarrow> Sinks w' = [1] \<and> closed (heap w' 1) \<and> \<not> closed (heap w' 2))))"
  by (simp add: after_def SinkTo_def World0_def Close_def Let_def buffer_def)

lemma writer_eq_total:
  "\<forall>t i v. w \<noteq> Some (RawWriter t i v) \<Longrightarrow> \<exists>r. writer_eq x w = Inr r"
  by (induction x w rule: writer_eq.induct) auto

lemma findSink_first:
  assumes "\<forall>t i v. w \<noteq> Some (RawWriter t i v)"
    and "\<exists>a\<in>set as. writer_eq (writer (h a)) w = Inr True"
  shows "\<exists>vis a rest. as = vis @ a # rest
           \<and> (\<forall>x\<in>set vis. writer_eq (writer (h x)) w \<noteq> Inr True)
           \<and> writer_eq (writer (h a)) w = Inr True \<and> findSink h w as = Inr (Some a)"
  using assms(2)
proof (induction as)
  case Nil
  then show ?case by simp
next
  case (Cons b bs)
  from writer_eq_total [OF assms(1)] obtain r where r: "writer_eq (writer (h b)) w = Inr r"
    by blast
  show ?case
  proof (cases r)
    case True
    with r have "(b # bs) = [] @ b # bs \<and> (\<forall>x\<in>set []. writer_eq (writer (h x)) w \<noteq> Inr True)
        \<and> writer_eq (writer (h b)) w = Inr True \<and> findSink h w (b # bs) = Inr (Some b)"
      by simp
    then show ?thesis by blast
  next
    case False
    with r Cons.prems have "\<exists>a\<in>set bs. writer_eq (writer (h a)) w = Inr True"
      by auto
    from Cons.IH [OF this] obtain vis a rest where
      v: "bs = vis @ a # rest" "\<forall>x\<in>set vis. writer_eq (writer (h x)) w \<noteq> Inr True"
        "writer_eq (writer (h a)) w = Inr True" "findSink h w bs = Inr (Some a)"
      by blast
    with r False have "(b # bs) = (b # vis) @ a # rest
        \<and> (\<forall>x\<in>set (b # vis). writer_eq (writer (h x)) w \<noteq> Inr True)
        \<and> writer_eq (writer (h a)) w = Inr True \<and> findSink h w (b # bs) = Inr (Some a)"
      by simp
    then show ?thesis by blast
  qed
qed

lemma findSink_none:
  assumes "\<forall>t i v. w \<noteq> Some (RawWriter t i v)"
    and "\<forall>a\<in>set as. writer_eq (writer (h a)) w \<noteq> Inr True"
  shows "findSink h w as = Inr None"
  using assms(2)
proof (induction as)
  case Nil
  then show ?case by simp
next
  case (Cons b bs)
  from writer_eq_total [OF assms(1)] obtain r where "writer_eq (writer (h b)) w = Inr r"
    by blast
  with Cons show ?case by (cases r) simp_all
qed

text \<open>
  C3. The specification has \<open>SinkTo\<close> compare destinations by identity and not by
  structure, for every destination. The code compares them with \<open>==\<close> on interface
  values. Registering a destination whose dynamic type is not comparable and then
  registering the same destination again panics in the comparison instead of returning
  the registered sink; and of two distinct destination objects of a comparable value type
  with equal content, the second is given the sink of the first.
\<close>

theorem SinkTo_not_by_identity:
  "SinkTo (Some sliceWriter) AsLogfmt World0
     = Inr (0, after (SinkTo (Some sliceWriter) AsLogfmt World0))
   \<and> Sinks (after (SinkTo (Some sliceWriter) AsLogfmt World0)) = [0]
   \<and> writer (heap (after (SinkTo (Some sliceWriter) AsLogfmt World0)) 0) = Some sliceWriter
   \<and> SinkTo (Some sliceWriter) AsLogfmt (after (SinkTo (Some sliceWriter) AsLogfmt World0))
       = Inl Uncomparable
   \<and> tagWriterA \<noteq> tagWriterB
   \<and> SinkTo (Some tagWriterA) AsLogfmt World0
       = Inr (0, after (SinkTo (Some tagWriterA) AsLogfmt World0))
   \<and> Sinks (after (SinkTo (Some tagWriterA) AsLogfmt World0)) = [0]
   \<and> writer (heap (after (SinkTo (Some tagWriterA) AsLogfmt World0)) 0) = Some tagWriterA
   \<and> SinkTo (Some tagWriterB) AsLogfmt (after (SinkTo (Some tagWriterA) AsLogfmt World0))
       = Inr (0, after (SinkTo (Some tagWriterA) AsLogfmt World0))"
  by (simp add: SinkTo_def after_def World0_def sliceWriter_def tagWriterA_def tagWriterB_def)

text \<open>
  C3, as the code has it. Let \<open>w\<close> be nil, pointer-typed or of a comparable value type.
  When the destination of some registered sink equals \<open>w\<close> under \<open>==\<close>, \<open>SinkTo w f2\<close>
  returns the handle of the first such sink in the registry and changes nothing but that
  sink's formatter, which becomes \<open>f2\<close>: its positive filters, negative filters and hidden
  keys stay. Only when no registered sink's destination equals \<open>w\<close> under \<open>==\<close> is a new
  sink allocated, paused, at a fresh address, and appended to the registry. For a
  pointer-typed \<open>w\<close>, equal under \<open>==\<close> means the same object; for a value-typed \<open>w\<close> it
  means the same dynamic type and equal content, whichever object it was copied from.
\<close>

theorem SinkTo_equal_destination:
  assumes "\<forall>t i v. w \<noteq> Some (RawWriter t i v)"
  shows "((\<exists>a\<in>set (Sinks wd). writer_eq (writer (heap wd a)) w = Inr True) \<longrightarrow>
            (\<exists>vis a rest. Sinks wd = vis @ a # rest
               \<and> (\<forall>x\<in>set vis. writer_eq (writer (heap wd x)) w \<noteq> Inr True)
               \<and> writer_eq (writer (heap wd a)) w = Inr True
               \<and> SinkTo w f2 wd
                   = Inr (a, wd\<lparr>heap := (heap wd)(a := (heap wd a)\<lparr>format := f2\<rparr>)\<rparr>)
               \<and> positiveFilters (heap (after (SinkTo w f2 wd)) a) = positiveFilters (heap wd a)
               \<and> negativeFilters (heap (after (SinkTo w f2 wd)) a) = negativeFilters (heap wd a)
               \<and> hiddenKeys (heap (after (SinkTo w f2 wd)) a) = hiddenKeys (heap wd a)
               \<and> format (heap (after (SinkTo w f2 wd)) a) = f2))
       \<and> ((\<forall>a\<in>set (Sinks wd). writer_eq (writer (heap wd a)) w \<noteq> Inr True) \<longrightarrow>
            SinkTo w f2 wd
            = Inr (next_ptr wd,
                   wd\<lparr>heap := (heap wd)(next_ptr wd :=
                         \<lparr>sink_id = length (Sinks wd), In = \<lparr>buf = [], chan_closed = False\<rparr>,
                           writer = w, format = f2, closed = False, paused = True,
                           positiveFilters = Map.empty, negativeFilters = Map.empty,
                           hiddenKeys = Map.empty\<rparr>),
                      next_ptr := Suc (next_ptr wd),
                      Sinks := Sinks wd @ [next_ptr wd]\<rparr>))
       \<and> (\<forall>t p x. w = Some (PtrWriter t p) \<longrightarrow> (writer_eq x w = Inr True \<longleftrightarrow> x = w))
       \<and> (\<forall>t i v x. w = Some (ValWriter t i v) \<longrightarrow>
             (writer_eq x w = Inr True \<longleftrightarrow> (\<exists>j. x = Some (ValWriter t j v))))"
proof (intro conjI impI allI)
  assume "\<exists>a\<in>set (Sinks wd). writer_eq (writer (heap wd a)) w = Inr True"
  from findSink_first [OF assms this] obtain vis a rest where
    v: "Sinks wd = vis @ a # rest"
      "\<forall>x\<in>set vis. writer_eq (writer (heap wd x)) w \<noteq> Inr True"
      "writer_eq (writer (heap wd a)) w = Inr True"
      "findSink (heap wd) w (Sinks wd) = Inr (Some a)"
    by blast
  from v(4) have s: "SinkTo w f2 wd
      = Inr (a, wd\<lparr>heap := (heap wd)(a := (heap wd a)\<lparr>format := f2\<rparr>)\<rparr>)"
    by (simp add: SinkTo_def)
  then have "positiveFilters (heap (after (SinkTo w f2 wd)) a) = positiveFilters (heap wd a)"
    and "negativeFilters (heap (after (SinkTo w f2 wd)) a) = negativeFilters (heap wd a)"
    and "hiddenKeys (heap (after (SinkTo w f2 wd)) a) = hiddenKeys (heap wd a)"
    and "format (heap (after (SinkTo w f2 wd)) a) = f2"
    by (simp_all add: after_def)
  with v(1-3) s show "\<exists>vis a rest. Sinks wd = vis @ a # rest
               \<and> (\<forall>x\<in>set vis. writer_eq (writer (heap wd x)) w \<noteq> Inr True)
               \<and> writer_eq (writer (heap wd a)) w = Inr True
               \<and> SinkTo w f2 wd
                   = Inr (a, wd\<lparr>heap := (heap wd)(a := (heap wd a)\<lparr>format := f2\<rparr>)\<rparr>)
               \<and> positiveFilters (heap (after (SinkTo w f2 wd)) a) = positiveFilters (heap wd a)
               \<and> negativeFilters (heap (after (SinkTo w f2 wd)) a) = negativeFilters (heap wd a)
               \<and> hiddenKeys (heap (after (SinkTo w f2 wd)) a) = hiddenKeys (heap wd a)
               \<and> format (heap (after (SinkTo w f2 wd)) a) = f2"
    by blast
next
  assume "\<forall>a\<in>set (Sinks wd). writer_eq (writer (heap wd a)) w \<noteq> Inr True"
  from findSink_none [OF assms this]
  show "SinkTo w f2 wd
            = Inr (next_ptr wd,
                   wd\<lparr>heap := (heap wd)(next_ptr wd :=
                         \<lparr>sink_id = length (Sinks wd), In = \<lparr>buf = [], chan_closed = False\<rparr>,
                           writer = w, format = f2, closed = False, paused = True,
                           positiveFilters = Map.empty, negativeFilters = Map.empty,
                           hiddenKeys = Map.empty\<rparr>),
                      next_ptr := Suc (next_ptr wd),
                      Sinks := Sinks wd @ [next_ptr wd]\<rparr>)"
    by (simp add: SinkTo_def Let_def)
next
  fix t p x
  assume "w = Some (PtrWriter t p)"
  then show "writer_eq x w = Inr True \<longleftrightarrow> x = w"
    by (cases "(x, w)" rule: writer_eq.cases) auto
next
  fix t i v x
  assume "w = Some (ValWriter t i v)"
  then show "writer_eq x w = Inr True \<longleftrightarrow> (\<exists>j. x = Some (ValWriter t j v))"
    by (cases "(x, w)" rule: writer_eq.cases) auto
qed

theorem SinkTo_equal_destination_witness:
  "(let wd = on_sink 0 (Hide [''secret''] \<circ> WithoutKey [''debug'']) oneSink;
        f2 = \<lparr>calls = [], render = (\<lambda>cs. ''second'')\<rparr>
    in Sinks wd = [0] \<and> writer (heap wd 0) = Some (buffer 0)
       \<and> written wd (buffer 0) = written wd (buffer 1)
       \<and> SinkTo (Some (buffer 0)) f2 wd
           = Inr (0, wd\<lparr>heap := (heap wd)(0 := (heap wd 0)\<lparr>format := f2\<rparr>)\<rparr>)
       \<and> negativeFilters (heap (after (SinkTo (Some (buffer 0)) f2 wd)) 0) ''debug''
           = Some keyFilter
       \<and> hiddenKeys (heap (after (SinkTo (Some (buffer 0)) f2 wd)) 0) ''secret'' = Some True
       \<and> Sinks (after (SinkTo (Some (buffer 0)) f2 wd)) = [0]
       \<and> Sinks (after (SinkTo (Some (buffer 1)) f2 wd)) = [0, 1]
       \<and> heap (after (SinkTo (Some (buffer 1)) f2 wd)) 0 = heap wd 0
       \<and> paused (heap (after (SinkTo (Some (buffer 1)) f2 wd)) 1))"
proof -
  define wd where "wd = on_sink 0 (Hide [''secret''] \<circ> WithoutKey [''debug'']) oneSink"
  define f2 where "f2 = \<lparr>calls = [], render = (\<lambda>cs::fcall list. ''second'')\<rparr>"
  have s: "Sinks wd = [0]" and w: "writer (heap wd 0) = Some (buffer 0)"
    and n: "next_ptr wd = 1" and o: "written wd (buffer 0) = written wd (buffer 1)"
    and d: "negativeFilters (heap wd 0) ''debug'' = Some keyFilter"
    and h: "hiddenKeys (heap wd 0) ''secret'' = Some True"
    by (simp_all add: wd_def on_sink_def oneSink_def after_def SinkTo_def World0_def Hide_def
        WithoutKey_def)
  have c: "\<forall>t i v. Some (buffer k) \<noteq> Some (RawWriter t i v)" for k
    by (simp add: buffer_def)
  have e0: "writer_eq (Some (buffer 0)) (Some (buffer 0)) = Inr True"
    and e1: "writer_eq (Some (buffer 0)) (Some (buffer 1)) \<noteq> Inr True"
    by (simp_all add: buffer_def)
  from SinkTo_equal_destination [OF c, of wd 0 f2] s w e0
  have same: "SinkTo (Some (buffer 0)) f2 wd
      = Inr (0, wd\<lparr>heap := (heap wd)(0 := (heap wd 0)\<lparr>format := f2\<rparr>)\<rparr>)"
    by (auto simp: Cons_eq_append_conv)
  from SinkTo_equal_destination [OF c, of wd 1 f2] s w n e1
  have new: "Sinks (after (SinkTo (Some (buffer 1)) f2 wd)) = [0, 1]
             \<and> heap (after (SinkTo (Some (buffer 1)) f2 wd)) 0 = heap wd 0
             \<and> paused (heap (after (SinkTo (Some (buffer 1)) f2 wd)) 1)"
    by (simp add: after_def)
  from same new s w o d h show ?thesis
    unfolding wd_def [symmetric] f2_def [symmetric] Let_def
    by (simp add: after_def)
qed

subsection \<open>The processing task\<close>

lemma filterLoop_negative:
  "p \<in> set rec \<Longrightarrow> negativeFilters s (Key p) = Some f \<Longrightarrow> chk f (Key p) (Strv p)
   \<Longrightarrow> \<not> filterLoop chk s rec"
  by (induction rec) auto

lemma filterLoop_hiddenKeys:
  "filterLoop chk (s\<lparr>hiddenKeys := h\<rparr>) rec = filterLoop chk s rec"
  by (induction rec) auto

lemma formatPairs_calls:
  "formatPairs s rec f =
     f\<lparr>calls := calls f @ map (\<lambda>p. fPair (Key p) (Strv p) (Quoted p))
                              (filter (\<lambda>p. \<not> hidden s (Key p)) rec)\<rparr>"
  by (induction rec arbitrary: f) (auto simp: Pair_fmt_def)

lemma rejected_box:
  assumes "\<not> closed (heap wd a)" and "\<not> paused (heap wd a)"
    and "Record b = Some rec" and "Group b = Some g" and "0 < wgs wd g"
    and "\<not> filterLoop chk (heap wd a) rec"
  shows "processBox chk a b wd = Inr (wd\<lparr>wgs := (wgs wd)(g := wgs wd g - 1)\<rparr>, True)"
  using assms by (simp add: processBox_def wg_Done_def)

text \<open>
  C1. A running sink takes a record entry off its queue. If some pair of the record has a
  negative filter registered for its key and the filter's predicate holds on the pair, the
  record is rejected whatever the positive filters are: nothing is formatted and nothing
  is written, the only effect is the signal on the entry's completion handle, and the
  task goes on to the next entry.
\<close>

theorem negative_filter_rejects:
  assumes "\<not> closed (heap wd a)" and "\<not> paused (heap wd a)"
    and "Record b = Some rec" and "Group b = Some g" and "0 < wgs wd g"
    and "p \<in> set rec" and "negativeFilters (heap wd a) (Key p) = Some f"
    and "chk f (Key p) (Strv p)"
  shows "\<not> filterLoop chk (heap wd a) rec
       \<and> processBox chk a b wd = Inr (wd\<lparr>wgs := (wgs wd)(g := wgs wd g - 1)\<rparr>, True)"
proof -
  have "\<not> filterLoop chk (heap wd a) rec"
    using assms(6-8) by (rule filterLoop_negative)
  with assms(1-5) show ?thesis
    by (simp add: rejected_box)
qed

theorem negative_filter_rejects_witness:
  "(let wd = (on_sink 0 (Start \<circ> WithFilter ''debug'' keyFilter \<circ> WithoutKey [''debug''])
                oneSink)\<lparr>wgs := (\<lambda>_. 0)(7 := 1)\<rparr>;
        b = \<lparr>Record = Some debugRecord, Group = Some 7\<rparr>
    in negativeFilters (heap wd 0) ''debug'' = Some keyFilter
       \<and> positiveFilters (heap wd 0) ''debug'' = Some keyFilter
       \<and> specCheck keyFilter ''debug'' ''x''
       \<and> processBox specCheck 0 b wd = Inr (wd\<lparr>wgs := (\<lambda>_. 0)\<rparr>, True))"
proof -
  define wd where "wd = (on_sink 0 (Start \<circ> WithFilter ''debug'' keyFilter
      \<circ> WithoutKey [''debug'']) oneSink)\<lparr>wgs := (\<lambda>_. 0)(7 := 1)\<rparr>"
  define p where "p = \<lparr>Key = ''debug'', Strv = ''x'', Quoted = False\<rparr>"
  have s: "\<not> closed (heap wd 0)" "\<not> paused (heap wd 0)" "0 < wgs wd 7"
    "negativeFilters (heap wd 0) (Key p) = Some keyFilter"
    "positiveFilters (heap wd 0) ''debug'' = Some keyFilter"
    by (simp_all add: wd_def p_def on_sink_def oneSink_def after_def SinkTo_def World0_def Start_def
        WithFilter_def WithoutKey_def)
  have c: "specCheck keyFilter (Key p) (Strv p)"
    by (simp add: specCheck_def)
  have m: "p \<in> set debugRecord"
    by (simp add: debugRecord_def p_def)
  have z: "(wgs wd)(7 := wgs wd 7 - 1) = (\<lambda>_. 0)"
    by (auto simp: wd_def)
  from negative_filter_rejects [where chk = specCheck and wd = wd and a = 0
      and b = "\<lparr>Record = Some debugRecord, Group = Some 7\<rparr>" and rec = debugRecord
      and g = 7 and p = p and f = keyFilter] s m c z
  show ?thesis
    unfolding wd_def [symmetric] Let_def by (simp add: p_def)
qed

text \<open>
  C6. A sink whose paused flag is set takes a record entry off its queue: it signals the
  entry's completion handle and that is all. No filter is consulted, the formatter and
  the destination are untouched, and the sink keeps no copy: the task goes on from the
  state it had, less the entry taken off the queue, so a later \<open>Start\<close> finds nothing
  of the record.
\<close>

theorem paused_sink_drops:
  assumes "paused (heap wd a)"
    and "Record b = Some rec" and "Group b = Some g" and "0 < wgs wd g"
  shows "processBox chk a b (dequeue a wd)
           = Inr ((dequeue a wd)\<lparr>wgs := (wgs wd)(g := wgs wd g - 1)\<rparr>, \<not> closed (heap wd a))
       \<and> (\<not> closed (heap wd a) \<and> buf (In (heap wd a)) = b # bs \<longrightarrow>
            processOutput chk a wd
            = processOutput chk a ((dequeue a wd)\<lparr>wgs := (wgs wd)(g := wgs wd g - 1)\<rparr>)
            \<and> buf (In (heap ((dequeue a wd)\<lparr>wgs := (wgs wd)(g := wgs wd g - 1)\<rparr>) a)) = bs)"
proof -
  have "paused (heap (dequeue a wd) a)" and "closed (heap (dequeue a wd) a) = closed (heap wd a)"
    and "0 < wgs (dequeue a wd) g" and "wgs (dequeue a wd) = wgs wd"
    using assms by (simp_all add: dequeue_def)
  with assms(2,3)
  have step: "processBox chk a b (dequeue a wd)
      = Inr ((dequeue a wd)\<lparr>wgs := (wgs wd)(g := wgs wd g - 1)\<rparr>, \<not> closed (heap wd a))"
    by (simp add: processBox_def wg_Done_def Let_def)
  have "processOutput chk a wd
        = processOutput chk a ((dequeue a wd)\<lparr>wgs := (wgs wd)(g := wgs wd g - 1)\<rparr>)"
    if "\<not> closed (heap wd a)" and "buf (In (heap wd a)) = b # bs"
    using that step by (subst processOutput.simps) simp
  moreover have "buf (In (heap ((dequeue a wd)\<lparr>wgs := (wgs wd)(g := wgs wd g - 1)\<rparr>) a)) = bs"
    if "buf (In (heap wd a)) = b # bs"
    using that by (simp add: dequeue_def)
  ultimately show ?thesis
    using step by blast
qed

theorem paused_sink_drops_witness:
  "(case sinkRecord msgRecord (on_sink 0 Start oneSink) of
      Inl e \<Rightarrow> False
    | Inr (c1, w1) \<Rightarrow>
        at c1 = AtWait
        \<and> buf (In (heap w1 0)) = [\<lparr>Record = Some msgRecord, Group = Some (cwg c1)\<rparr>]
        \<and> wgs w1 (cwg c1) = 1
        \<and> (case processOutput specCheck 0 (on_sink 0 Stop w1) of
              Inl e \<Rightarrow> False
            | Inr (t, w2) \<Rightarrow>
                t = Waiting \<and> wgs w2 (cwg c1) = 0 \<and> written w2 (buffer 0) = []
                \<and> calls (format (heap w2 0)) = [] \<and> buf (In (heap w2 0)) = []
                \<and> processOutput specCheck 0 (on_sink 0 Start w2)
                    = Inr (Waiting, on_sink 0 Start w2)
                \<and> written (on_sink 0 Start w2) (buffer 0) = []))"
proof -
  define c1 where "c1 = \<lparr>crec = msgRecord, cwg = 0, sent = [0], at = AtWait\<rparr>"
  define w1 where "w1 = (on_sink 0 Start oneSink)
      \<lparr>heap := (heap (on_sink 0 Start oneSink))(0 :=
          enqueued \<lparr>Record = Some msgRecord, Group = Some 0\<rparr> (heap (on_sink 0 Start oneSink) 0)),
        wgs := (\<lambda>_. 0)(0 := 1), next_wg := 1\<rparr>"
  define wp where "wp = on_sink 0 Stop w1"
  define w2 where "w2 = (dequeue 0 wp)\<lparr>wgs := (wgs wp)(0 := wgs wp 0 - 1)\<rparr>"
  have r: "sinkRecord msgRecord (on_sink 0 Start oneSink) = Inr (c1, w1)"
    by (simp add: c1_def w1_def sinkRecord_def sinkRecord_begin_def sinkRecord_run.simps
        sinkRecord_step_def wg_Wait_returns_def on_sink_def oneSink_def after_def SinkTo_def
        World0_def Start_def send_def wg_Add_def chan_cap_def enqueued_def Let_def)
  have p: "paused (heap wp 0)" "\<not> closed (heap wp 0)" "0 < wgs wp 0"
    "buf (In (heap wp 0)) = [\<lparr>Record = Some msgRecord, Group = Some 0\<rparr>]"
    by (simp_all add: wp_def w1_def on_sink_def oneSink_def after_def SinkTo_def World0_def
        Start_def Stop_def enqueued_def)
  from paused_sink_drops [where chk = specCheck and wd = wp and a = 0
      and b = "\<lparr>Record = Some msgRecord, Group = Some 0\<rparr>" and rec = msgRecord
      and g = 0 and bs = "[]"] p
  have "processOutput specCheck 0 wp = processOutput specCheck 0 w2"
    by (simp add: w2_def)
  moreover have e: "buf (In (heap w2 0)) = []" "\<not> chan_closed (In (heap w2 0))"
    "wgs w2 0 = 0" "written w2 (buffer 0) = []" "calls (format (heap w2 0)) = []"
    by (simp_all add: w2_def wp_def w1_def dequeue_def on_sink_def oneSink_def after_def
        SinkTo_def World0_def Start_def Stop_def enqueued_def AsLogfmt_def)
  ultimately have q: "processOutput specCheck 0 wp = Inr (Waiting, w2)"
    by (simp add: processOutput.simps)
  have "buf (In (heap (on_sink 0 Start w2) 0)) = []"
    and "\<not> chan_closed (In (heap (on_sink 0 Start w2) 0))"
    and "written (on_sink 0 Start w2) (buffer 0) = []"
    using e by (simp_all add: on_sink_def Start_def)
  then have "processOutput specCheck 0 (on_sink 0 Start w2) = Inr (Waiting, on_sink 0 Start w2)"
    and "written (on_sink 0 Start w2) (buffer 0) = []"
    by (simp_all add: processOutput.simps)
  with r q e have "at c1 = AtWait \<and> cwg c1 = 0
        \<and> buf (In (heap w1 0)) = [\<lparr>Record = Some msgRecord, Group = Some 0\<rparr>] \<and>
        wgs w1 0 = 1 \<and> processOutput specCheck 0 (on_sink 0 Stop w1) = Inr (Waiting, w2)
        \<and> wgs w2 0 = 0 \<and> written w2 (buffer 0) = [] \<and> calls (format (heap w2 0)) = []
        \<and> buf (In (heap w2 0)) = []
        \<and> processOutput specCheck 0 (on_sink 0 Start w2) = Inr (Waiting, on_sink 0 Start w2)
        \<and> written (on_sink 0 Start w2) (buffer 0) = []"
    by (simp add: wp_def c1_def) (simp add: w1_def enqueued_def on_sink_def oneSink_def
        after_def SinkTo_def World0_def Start_def)
  with r show ?thesis by simp
qed

text \<open>
  C7. A running sink with a destination takes a record entry off its queue. If the filter
  loop accepts the record, the formatter receives \<open>Begin\<close>, then one \<open>Pair\<close> call for
  each pair whose key is not hidden, in record order and for no other pair, then
  \<open>Finish\<close>, and the bytes \<open>Finish\<close> returns are written to the destination. The filter
  loop does not look at the hidden keys: its verdict is the same whatever the hidden-key
  map is, and a pair whose key is hidden and carries a negative filter that holds on it
  makes the sink reject the whole record, with nothing formatted or written.
\<close>

theorem hidden_keys_redact_output_only:
  assumes "\<not> closed (heap wd a)" and "\<not> paused (heap wd a)"
    and "Record b = Some rec" and "Group b = Some g" and "0 < wgs wd g"
    and "writer (heap wd a) = Some wr"
  shows "(filterLoop chk (heap wd a) rec \<longrightarrow>
           processBox chk a b wd
           = Inr (wd\<lparr>heap := (heap wd)(a := (heap wd a)\<lparr>format := (format (heap wd a))
                        \<lparr>calls := calls (format (heap wd a)) @ [fBegin]
                           @ map (\<lambda>p. fPair (Key p) (Strv p) (Quoted p))
                                 (filter (\<lambda>p. \<not> hidden (heap wd a) (Key p)) rec)
                           @ [fFinish]\<rparr>\<rparr>),
                     written := (written wd)(wr := written wd wr @
                        [render (format (heap wd a))
                           (calls (format (heap wd a)) @ [fBegin]
                            @ map (\<lambda>p. fPair (Key p) (Strv p) (Quoted p))
                                  (filter (\<lambda>p. \<not> hidden (heap wd a) (Key p)) rec)
                            @ [fFinish])]),
                     wgs := (wgs wd)(g := wgs wd g - 1)\<rparr>, True))
       \<and> filterLoop chk ((heap wd a)\<lparr>hiddenKeys := h\<rparr>) rec = filterLoop chk (heap wd a) rec
       \<and> (\<forall>p\<in>set rec. \<forall>f.
             hidden (heap wd a) (Key p) \<and> negativeFilters (heap wd a) (Key p) = Some f
             \<and> chk f (Key p) (Strv p) \<longrightarrow>
             processBox chk a b wd = Inr (wd\<lparr>wgs := (wgs wd)(g := wgs wd g - 1)\<rparr>, True))"
proof (intro conjI impI ballI allI)
  assume "filterLoop chk (heap wd a) rec"
  with assms show "processBox chk a b wd
           = Inr (wd\<lparr>heap := (heap wd)(a := (heap wd a)\<lparr>format := (format (heap wd a))
                        \<lparr>calls := calls (format (heap wd a)) @ [fBegin]
                           @ map (\<lambda>p. fPair (Key p) (Strv p) (Quoted p))
                                 (filter (\<lambda>p. \<not> hidden (heap wd a) (Key p)) rec)
                           @ [fFinish]\<rparr>\<rparr>),
                     written := (written wd)(wr := written wd wr @
                        [render (format (heap wd a))
                           (calls (format (heap wd a)) @ [fBegin]
                            @ map (\<lambda>p. fPair (Key p) (Strv p) (Quoted p))
                                  (filter (\<lambda>p. \<not> hidden (heap wd a) (Key p)) rec)
                            @ [fFinish])]),
                     wgs := (wgs wd)(g := wgs wd g - 1)\<rparr>, True)"
    by (simp add: processBox_def wg_Done_def filterRecord_def Let_def formatPairs_calls
        Begin_def Finish_def)
next
  show "filterLoop chk ((heap wd a)\<lparr>hiddenKeys := h\<rparr>) rec = filterLoop chk (heap wd a) rec"
    by (rule filterLoop_hiddenKeys)
next
  fix p f
  assume "p \<in> set rec"
    and "hidden (heap wd a) (Key p) \<and> negativeFilters (heap wd a) (Key p) = Some f
         \<and> chk f (Key p) (Strv p)"
  then have "\<not> filterLoop chk (heap wd a) rec"
    using filterLoop_negative by blast
  with assms(1-5) show "processBox chk a b wd
      = Inr (wd\<lparr>wgs := (wgs wd)(g := wgs wd g - 1)\<rparr>, True)"
    by (rule rejected_box)
qed

theorem hidden_keys_redact_output_only_witness:
  "(let wd = (on_sink 0 (Start \<circ> Hide [''secret'']) oneSink)\<lparr>wgs := (\<lambda>_. 0)(7 := 1)\<rparr>;
        wn = on_sink 0 (WithoutKey [''secret'']) wd;
        b = \<lparr>Record = Some secretRecord, Group = Some 7\<rparr>
    in hidden (heap wd 0) ''secret'' \<and> filterLoop specCheck (heap wd 0) secretRecord
       \<and> (case processBox specCheck 0 b wd of
             Inl e \<Rightarrow> False
           | Inr (w1, c) \<Rightarrow>
               calls (format (heap w1 0)) = [fBegin, fPair ''msg'' ''hi'' False, fFinish]
               \<and> written w1 (buffer 0) = [''msg=hi'' @ [CHR 0x0A]] \<and> wgs w1 7 = 0)
       \<and> hidden (heap wn 0) ''secret'' \<and> \<not> filterLoop specCheck (heap wn 0) secretRecord
       \<and> processBox specCheck 0 b wn = Inr (wn\<lparr>wgs := (\<lambda>_. 0)\<rparr>, True))"
proof -
  define wd where "wd = (on_sink 0 (Start \<circ> Hide [''secret'']) oneSink)
      \<lparr>wgs := (\<lambda>_. 0)(7 := 1)\<rparr>"
  define wn where "wn = on_sink 0 (WithoutKey [''secret'']) wd"
  define b where "b = \<lparr>Record = Some secretRecord, Group = Some 7\<rparr>"
  define p where "p = \<lparr>Key = ''secret'', Strv = ''s'', Quoted = False\<rparr>"
  have s: "\<not> closed (heap wd 0)" "\<not> paused (heap wd 0)" "0 < wgs wd 7"
    "writer (heap wd 0) = Some (buffer 0)" "Record b = Some secretRecord" "Group b = Some 7"
    by (simp_all add: wd_def b_def on_sink_def oneSink_def after_def SinkTo_def World0_def Start_def
        Hide_def)
  have n: "\<not> closed (heap wn 0)" "\<not> paused (heap wn 0)" "0 < wgs wn 7"
    "writer (heap wn 0) = Some (buffer 0)"
    "negativeFilters (heap wn 0) ''secret'' = Some keyFilter"
    by (simp_all add: wn_def wd_def on_sink_def oneSink_def after_def SinkTo_def World0_def Start_def
        Hide_def WithoutKey_def)
  have hd: "hidden (heap wd 0) k = (k = ''secret'')" for k
    by (simp add: hidden_def wd_def on_sink_def oneSink_def after_def SinkTo_def World0_def Start_def
        Hide_def)
  have hn: "hidden (heap wn 0) ''secret''"
    by (simp add: hidden_def wn_def wd_def on_sink_def oneSink_def after_def SinkTo_def World0_def
        Start_def Hide_def WithoutKey_def)
  have f: "filterLoop specCheck (heap wd 0) secretRecord"
    by (simp add: secretRecord_def wd_def on_sink_def oneSink_def after_def SinkTo_def World0_def
        Start_def Hide_def)
  have fa: "format (heap wd 0) = AsLogfmt" and wr: "written wd (buffer 0) = []"
    by (simp_all add: wd_def on_sink_def oneSink_def after_def SinkTo_def World0_def Start_def
        Hide_def)
  have fm: "calls (format (heap wd 0)) = []" "render (format (heap wd 0)) = render AsLogfmt"
    "written wd (buffer 0) = []"
    by (simp_all add: fa wr) (simp add: AsLogfmt_def)
  have r: "render AsLogfmt [fBegin, fPair ''msg'' ''hi'' False, fFinish]
           = ''msg=hi'' @ [CHR 0x0A]"
    by (simp add: AsLogfmt_def)
  have pm: "p \<in> set secretRecord" "Key p = ''secret''" "Strv p = ''s''"
    by (simp_all add: p_def secretRecord_def)
  have c: "specCheck keyFilter ''secret'' ''s''"
    by (simp add: specCheck_def)
  have z: "(wgs wn)(7 := wgs wn 7 - 1) = (\<lambda>_. 0)"
    by (auto simp: wn_def wd_def on_sink_def)
  from hidden_keys_redact_output_only [where chk = specCheck and wd = wd and a = 0 and b = b
      and rec = secretRecord and g = 7 and wr = "buffer 0"] s f
  have acc: "processBox specCheck 0 b wd
      = Inr (wd\<lparr>heap := (heap wd)(0 := (heap wd 0)\<lparr>format := (format (heap wd 0))
                 \<lparr>calls := [fBegin, fPair ''msg'' ''hi'' False, fFinish]\<rparr>\<rparr>),
               written := (written wd)(buffer 0 := [''msg=hi'' @ [CHR 0x0A]]),
               wgs := (wgs wd)(7 := wgs wd 7 - 1)\<rparr>, True)"
    by (simp add: secretRecord_def hd fm r)
  from hidden_keys_redact_output_only [where chk = specCheck and wd = wn and a = 0 and b = b
      and rec = secretRecord and g = 7 and wr = "buffer 0"] n(1-4) s(5,6)
  have "\<forall>p\<in>set secretRecord. \<forall>f.
          hidden (heap wn 0) (Key p) \<and> negativeFilters (heap wn 0) (Key p) = Some f
          \<and> specCheck f (Key p) (Strv p) \<longrightarrow>
          processBox specCheck 0 b wn = Inr (wn\<lparr>wgs := (wgs wn)(7 := wgs wn 7 - 1)\<rparr>, True)"
    by blast
  from this [rule_format, of p keyFilter] pm hn c n(5)
  have rej: "processBox specCheck 0 b wn = Inr (wn\<lparr>wgs := (wgs wn)(7 := wgs wn 7 - 1)\<rparr>, True)"
    by simp
  then have nf: "\<not> filterLoop specCheck (heap wn 0) secretRecord"
    using n(5) pm c filterLoop_negative [of p secretRecord "heap wn 0" keyFilter specCheck]
    by simp
  have "wgs wd 7 - 1 = 0"
    by (simp add: wd_def)
  with acc rej nf hd hn f z show ?thesis
    unfolding wd_def [symmetric] wn_def [symmetric] b_def [symmetric] Let_def
    by simp
qed

subsection \<open>Producers\<close>








lemma filterRecord_frame:
  "In (heap (filterRecord a rec wd) x) = In (heap wd x)"
  "paused (heap (filterRecord a rec wd) x) = paused (heap wd x)"
  "closed (heap (filterRecord a rec wd) x) = closed (heap wd x)"
  "wgs (filterRecord a rec wd) = wgs wd"
  "next_wg (filterRecord a rec wd) = next_wg wd"
  by (simp_all add: filterRecord_def Let_def split: option.splits prod.splits)

lemma wg_Done_frame:
  "wg_Done g wd = Inr wd1 \<Longrightarrow> wd1 = wd\<lparr>wgs := (wgs wd)(g := wgs wd g - 1)\<rparr> \<and> 0 < wgs wd g"
  by (auto simp: wg_Done_def split: if_splits)

lemma processBox_effect:
  assumes "processBox chk a b wd = Inr (wd', cont)"
  shows "In (heap wd' x) = In (heap wd x)"
    and "paused (heap wd' x) = paused (heap wd x)"
    and "closed (heap wd' x) = closed (heap wd x)"
    and "next_wg wd' = next_wg wd"
    and "wgs wd' = (case Group b of None \<Rightarrow> wgs wd | Some g \<Rightarrow> (wgs wd)(g := wgs wd g - 1))"
    and "\<And>g. Group b = Some g \<Longrightarrow> 0 < wgs wd g"
  using assms
  by (auto simp: processBox_def Let_def filterRecord_frame
      split: if_splits option.splits sum.splits dest!: wg_Done_frame)

lemma dequeue_frame:
  "paused (heap (dequeue a wd) x) = paused (heap wd x)"
  "closed (heap (dequeue a wd) x) = closed (heap wd x)"
  "wgs (dequeue a wd) = wgs wd"
  "next_wg (dequeue a wd) = next_wg wd"
  "x \<noteq> a \<Longrightarrow> In (heap (dequeue a wd) x) = In (heap wd x)"
  "buf (In (heap (dequeue a wd) a)) = tl (buf (In (heap wd a)))"
  by (simp_all add: dequeue_def)












text \<open>
  The two assumptions of the statement on \<open>sinkRecord\<close> below hold in every regular
  state; the start state is regular and the operations keep states regular.
\<close>

lemma regularI:
  assumes "distinct (Sinks w)" and "\<And>a. a \<in> set (Sinks w) \<Longrightarrow> a < next_ptr w"
    and "\<And>a b g. b \<in> set (buf (In (heap w a))) \<Longrightarrow> Group b = Some g \<Longrightarrow> g < next_wg w"
  shows "regular w"
  unfolding regular_def using assms by blast

lemma regularD:
  assumes "regular w"
  shows "distinct (Sinks w)" and "\<And>a. a \<in> set (Sinks w) \<Longrightarrow> a < next_ptr w"
    and "\<And>a b g. b \<in> set (buf (In (heap w a))) \<Longrightarrow> Group b = Some g \<Longrightarrow> g < next_wg w"
  using assms unfolding regular_def by blast+

lemma regular_World0: "regular World0"
  by (rule regularI) (simp_all add: World0_def zeroSink_def)

lemma regular_start:
  assumes "regular wd"
  shows "distinct (Sinks wd)"
    and "\<forall>a. \<forall>b\<in>set (buf (In (heap wd a))). Group b \<noteq> Some (next_wg wd)"
proof -
  show "distinct (Sinks wd)"
    by (rule regularD(1) [OF assms])
  show "\<forall>a. \<forall>b\<in>set (buf (In (heap wd a))). Group b \<noteq> Some (next_wg wd)"
  proof (intro allI ballI notI)
    fix a b
    assume "b \<in> set (buf (In (heap wd a)))" and "Group b = Some (next_wg wd)"
    from regularD(3) [OF assms this] show False by simp
  qed
qed

lemma regular_SinkTo:
  assumes r: "regular wd" and s: "SinkTo w fn wd = Inr (a, wd')"
  shows "regular wd'"
proof (cases "findSink (heap wd) w (Sinks wd)")
  case (Inl e)
  with s show ?thesis by (simp add: SinkTo_def)
next
  case (Inr f)
  show ?thesis
  proof (cases f)
    case None
    with Inr s have q: "buf (In (heap wd' x)) = buf (In (heap wd x)) \<or> buf (In (heap wd' x)) = []"
      and n: "next_wg wd' = next_wg wd" and p: "next_ptr wd' = Suc (next_ptr wd)"
      and l: "Sinks wd' = Sinks wd @ [next_ptr wd]" for x
      by (auto simp: SinkTo_def Let_def)
    show ?thesis
    proof (rule regularI)
      show "distinct (Sinks wd')"
        using regularD(1,2) [OF r] l by auto
      show "a \<in> set (Sinks wd') \<Longrightarrow> a < next_ptr wd'" for a
        using regularD(2) [OF r, of a] l p by auto
      show "b \<in> set (buf (In (heap wd' x))) \<Longrightarrow> Group b = Some g \<Longrightarrow> g < next_wg wd'"
        for x b g
        using regularD(3) [OF r, of b x g] q [of x] n by auto
    qed
  next
    case (Some x)
    with Inr s have "wd' = wd\<lparr>heap := (heap wd)(x := (heap wd x)\<lparr>format := fn\<rparr>)\<rparr>"
      by (auto simp: SinkTo_def)
    with r show ?thesis
      unfolding regular_def by simp
  qed
qed

lemma regular_Close:
  assumes r: "regular wd" and s: "Close a wd = Inr wd'"
  shows "regular wd'"
proof (cases "closed (heap wd a)")
  case True
  with assms show ?thesis by (simp add: Close_def)
next
  case False
  let ?n = "sink_id (heap wd a)"
  from False s have l: "Sinks wd' = take ?n (Sinks wd) @ drop (?n + 1) (Sinks wd)"
    and q: "In (heap wd' x) = In (heap wd x)" and n: "next_wg wd' = next_wg wd"
    and p: "next_ptr wd' = next_ptr wd" for x
    by (auto simp: Close_def Let_def split: if_splits)
  show ?thesis
  proof (rule regularI)
    show "distinct (Sinks wd')"
      using regularD(1) [OF r] set_take_disj_set_drop_if_distinct [of "Sinks wd" ?n "?n + 1"]
      by (simp add: l)
    show "x \<in> set (Sinks wd') \<Longrightarrow> x < next_ptr wd'" for x
      using regularD(2) [OF r, of x] by (auto simp: l p dest: in_set_takeD in_set_dropD)
    show "b \<in> set (buf (In (heap wd' x))) \<Longrightarrow> Group b = Some g \<Longrightarrow> g < next_wg wd'"
      for x b g
      using regularD(3) [OF r, of b x g] by (simp add: q n)
  qed
qed

lemma regular_on_sink:
  assumes "regular wd" and "In (m (heap wd a)) = In (heap wd a)"
  shows "regular (on_sink a m wd)"
  using assms unfolding regular_def on_sink_def by simp

lemma regular_begin:
  assumes r: "regular wd"
  shows "regular (snd (sinkRecord_begin rec wd))"
    and "cwg (fst (sinkRecord_begin rec wd)) < next_wg (snd (sinkRecord_begin rec wd))"
proof -
  show "regular (snd (sinkRecord_begin rec wd))"
  proof (rule regularI)
    show "b \<in> set (buf (In (heap (snd (sinkRecord_begin rec wd)) x))) \<Longrightarrow> Group b = Some g
          \<Longrightarrow> g < next_wg (snd (sinkRecord_begin rec wd))" for x b g
      using regularD(3) [OF r, of b x g] by (simp add: sinkRecord_begin_def)
  qed (use regularD(1,2) [OF r] in \<open>simp_all add: sinkRecord_begin_def\<close>)
  show "cwg (fst (sinkRecord_begin rec wd)) < next_wg (snd (sinkRecord_begin rec wd))"
    by (simp add: sinkRecord_begin_def)
qed

lemma regular_step:
  assumes r: "regular wd" and g: "cwg c < next_wg wd"
    and s: "sinkRecord_step c wd = Some (Inr (c', wd'))"
  shows "regular wd'" and "cwg c' = cwg c" and "next_wg wd' = next_wg wd"
proof -
  have "set (buf (In (heap wd' x))) \<subseteq> insert \<lparr>Record = Some (crec c), Group = Some (cwg c)\<rparr>
          (set (buf (In (heap wd x))))
        \<and> Sinks wd' = Sinks wd \<and> next_ptr wd' = next_ptr wd \<and> next_wg wd' = next_wg wd
        \<and> cwg c' = cwg c" for x
  proof (cases "at c")
    case (AtLoop as)
    with s show ?thesis
      by (cases as) (auto simp: sinkRecord_step_def wg_Add_def split: if_splits)
  next
    case (AtSend a as)
    with s show ?thesis
      by (auto simp: sinkRecord_step_def send_def Let_def split: sum.splits if_splits)
  next
    case AtWait
    with s show ?thesis
      by (auto simp: sinkRecord_step_def split: if_splits)
  next
    case AtEnd
    with s show ?thesis
      by (simp add: sinkRecord_step_def)
  qed
  then have q: "set (buf (In (heap wd' x))) \<subseteq> insert \<lparr>Record = Some (crec c), Group = Some (cwg c)\<rparr>
          (set (buf (In (heap wd x))))"
    and l: "Sinks wd' = Sinks wd" and p: "next_ptr wd' = next_ptr wd"
    and n: "next_wg wd' = next_wg wd" and c: "cwg c' = cwg c" for x
    by blast+
  show "cwg c' = cwg c" and "next_wg wd' = next_wg wd"
    by (rule c, rule n)
  show "regular wd'"
  proof (rule regularI)
    fix x b h
    assume b: "b \<in> set (buf (In (heap wd' x)))" and h: "Group b = Some h"
    from b q [of x] have "b = \<lparr>Record = Some (crec c), Group = Some (cwg c)\<rparr>
        \<or> b \<in> set (buf (In (heap wd x)))"
      by blast
    then show "h < next_wg wd'"
    proof
      assume "b = \<lparr>Record = Some (crec c), Group = Some (cwg c)\<rparr>"
      with h g n show ?thesis by simp
    next
      assume "b \<in> set (buf (In (heap wd x)))"
      from regularD(3) [OF r this h] n show ?thesis by simp
    qed
  qed (use regularD(1,2) [OF r] in \<open>simp_all add: l p\<close>)
qed

lemma processBox_registry:
  assumes "processBox chk a b wd = Inr (wd', cont)"
  shows "Sinks wd' = Sinks wd" and "next_ptr wd' = next_ptr wd"
  using assms
  by (auto simp: processBox_def Let_def filterRecord_def
      split: if_splits option.splits sum.splits prod.splits dest!: wg_Done_frame)

lemma regular_task:
  assumes r: "regular wd" and q: "buf (In (heap wd a)) = b # bs"
    and p: "processBox chk a b (dequeue a wd) = Inr (wd', cont)"
  shows "regular wd'"
proof (rule regularI)
  note eff = processBox_effect [OF p]
  note reg = processBox_registry [OF p]
  show "distinct (Sinks wd')" and "x \<in> set (Sinks wd') \<Longrightarrow> x < next_ptr wd'" for x
    using regularD(1,2) [OF r] by (simp_all add: reg dequeue_def)
  show "h < next_wg wd'" if "e \<in> set (buf (In (heap wd' x)))" and "Group e = Some h" for x e h
  proof -
    from that(1) q have "e \<in> set (buf (In (heap wd x)))"
      by (cases "x = a") (auto simp: eff(1) dequeue_frame)
    from regularD(3) [OF r this that(2)] show ?thesis
      by (simp add: eff(4) dequeue_frame)
  qed
qed



text \<open>
  C2. The specification has \<open>Close\<close> lead to a signal on the completion handle of every
  entry queued at close time. The task signals the first entry it takes off the queue of a
  closed sink and returns: with two records queued on a running sink when it is closed,
  the first producer is released, the second entry stays in the queue of a sink whose
  task has returned, and its handle stays at 1, so that producer waits for ever.
\<close>

theorem Close_strands_queued_entries:
  "(case sinkRecord msgRecord (on_sink 0 Start oneSink) of
      Inl e \<Rightarrow> False
    | Inr (c1, w1) \<Rightarrow>
        (case sinkRecord debugRecord w1 of
           Inl e \<Rightarrow> False
         | Inr (c2, w2) \<Rightarrow>
             at c1 = AtWait \<and> at c2 = AtWait \<and>
             (case Close 0 w2 of
                Inl e \<Rightarrow> False
              | Inr w3 \<Rightarrow>
                  buf (In (heap w3 0)) = [\<lparr>Record = Some msgRecord, Group = Some (cwg c1)\<rparr>,
                                           \<lparr>Record = Some debugRecord, Group = Some (cwg c2)\<rparr>]
                  \<and> wgs w3 (cwg c1) = 1 \<and> wgs w3 (cwg c2) = 1
                  \<and> (case processOutput chk 0 w3 of
                        Inl e \<Rightarrow> False
                      | Inr (t, w4) \<Rightarrow>
                          t = Returned
                          \<and> wg_Wait_returns (cwg c1) w4
                          \<and> \<not> wg_Wait_returns (cwg c2) w4 \<and> wgs w4 (cwg c2) = 1
                          \<and> sinkRecord_step c2 w4 = None
                          \<and> buf (In (heap w4 0))
                              = [\<lparr>Record = Some debugRecord, Group = Some (cwg c2)\<rparr>]
                          \<and> written w4 (buffer 0) = []))))"
  by (simp add: sinkRecord_def sinkRecord_begin_def sinkRecord_run.simps sinkRecord_step_def
      on_sink_def oneSink_def after_def SinkTo_def World0_def Start_def
      send_def wg_Add_def chan_cap_def Close_def processOutput.simps processBox_def
      dequeue_def wg_Done_def wg_Wait_returns_def Let_def)

end
